theory Spec2Isabelle
  imports Complex_Main "HOL-Library.Word" "HOL-Library.Multiset"
begin

unbundle bit_operations_syntax

section \<open>The type double\<close>

text \<open>
  A \<open>double\<close> is an IEEE 754 binary64 value: a finite real, an infinity or NaN. The
  two zeros are one value, since no operation of the program tells them apart. On finite
  arguments an operation computes the exact real result and rounds it to the nearest
  binary64 value, ties to the even significand: the exponent of the result is that of
  the exact value, at least -1022, the unit in the last place lies 52 binary places
  below it, and a rounded magnitude of 2^1024 or more overflows to an infinity. Every
  operation of the source is rounded on its own (no fused multiply-add, no extended
  precision).
\<close>

datatype double = Finite real | PInf | MInf | NaN

definition round_even :: "real \<Rightarrow> int" where
  "round_even t =
     (let f = \<lfloor>t\<rfloor>
      in if t - of_int f < 1 / 2 then f
         else if 1 / 2 < t - of_int f then f + 1
         else if even f then f else f + 1)"

definition expo :: "real \<Rightarrow> int" where
  "expo x = max \<lfloor>log 2 \<bar>x\<bar>\<rfloor> (- 1022)"

definition ulp :: "real \<Rightarrow> real" where
  "ulp x = 2 powr of_int (expo x - 52)"

definition round64 :: "real \<Rightarrow> double" where
  "round64 x =
     (let r = of_int (round_even (x / ulp x)) * ulp x
      in if 2 ^ 1024 \<le> \<bar>r\<bar> then (if 0 < x then PInf else MInf) else Finite r)"

text \<open>
  A finite real \<open>r\<close> is a value of the type when rounding leaves it as it is,
  \<open>round64 r = Finite r\<close>. The operations of lines 115 to 120, with the results
  IEEE 754 gives on infinities and NaN: subtraction, addition, multiplication, square
  root, the comparison \<open><\<close> (false when an argument is NaN) and the conversion of an
  \<open>int\<close>.
\<close>

fun dsub :: "double \<Rightarrow> double \<Rightarrow> double" where
  "dsub (Finite a) (Finite b) = round64 (a - b)"
| "dsub NaN b = NaN"
| "dsub a NaN = NaN"
| "dsub PInf PInf = NaN"
| "dsub MInf MInf = NaN"
| "dsub PInf b = PInf"
| "dsub MInf b = MInf"
| "dsub a PInf = MInf"
| "dsub a MInf = PInf"

fun dadd :: "double \<Rightarrow> double \<Rightarrow> double" where
  "dadd (Finite a) (Finite b) = round64 (a + b)"
| "dadd NaN b = NaN"
| "dadd a NaN = NaN"
| "dadd PInf MInf = NaN"
| "dadd MInf PInf = NaN"
| "dadd PInf b = PInf"
| "dadd MInf b = MInf"
| "dadd a PInf = PInf"
| "dadd a MInf = MInf"

fun dmul :: "double \<Rightarrow> double \<Rightarrow> double" where
  "dmul (Finite a) (Finite b) = round64 (a * b)"
| "dmul NaN b = NaN"
| "dmul a NaN = NaN"
| "dmul PInf (Finite b) = (if b = 0 then NaN else if 0 < b then PInf else MInf)"
| "dmul MInf (Finite b) = (if b = 0 then NaN else if 0 < b then MInf else PInf)"
| "dmul (Finite a) PInf = (if a = 0 then NaN else if 0 < a then PInf else MInf)"
| "dmul (Finite a) MInf = (if a = 0 then NaN else if 0 < a then MInf else PInf)"
| "dmul PInf PInf = PInf"
| "dmul PInf MInf = MInf"
| "dmul MInf PInf = MInf"
| "dmul MInf MInf = PInf"

fun dsqrt :: "double \<Rightarrow> double" where
  "dsqrt (Finite a) = (if a < 0 then NaN else round64 (sqrt a))"
| "dsqrt PInf = PInf"
| "dsqrt MInf = NaN"
| "dsqrt NaN = NaN"

fun dless :: "double \<Rightarrow> double \<Rightarrow> bool" where
  "dless (Finite a) (Finite b) = (a < b)"
| "dless NaN b = False"
| "dless a NaN = False"
| "dless a MInf = False"
| "dless PInf b = False"
| "dless MInf b = True"
| "dless a PInf = True"

definition double_of_int :: "int \<Rightarrow> double" where
  "double_of_int i = round64 (real_of_int i)"

section \<open>Data model\<close>

text \<open>
  The C++ types of the program. The \<open>int\<close> fields of OpenCV's \<open>cv::Rect\<close> and
  \<open>cv::Point\<close> are only stored and converted, never computed with, so they are HOL
  integers; \<open>int32\<close> marks the values a C++ \<open>int\<close> can hold. The fields \<open>x\<close>,
  \<open>y\<close>, \<open>width\<close>, \<open>height\<close> carry a prefix, since a record field is a constant
  of the whole theory. In \<open>detectStopSigns\<close> a \<open>double\<close> is only returned by a
  library function, scaled and handed back to the library or compared with a constant;
  with the library a parameter of the model, those values are reals.
\<close>

type_synonym Point = "int \<times> int"

record Rect =
  rect_x :: int
  rect_y :: int
  rect_width :: int
  rect_height :: int

record DetectedStopSign =
  boundingBox :: Rect
  contour :: "Point list"

record MapNode =
  node_x :: double
  node_y :: double
  hasStop :: bool

definition int32 :: "int \<Rightarrow> bool" where
  "int32 i = (- (2 ^ 31) \<le> i \<and> i < 2 ^ 31)"

section \<open>updateRoutingWithStopSigns\<close>

text \<open>
  The body of the inner loop (lines 115 to 122): the distance of the node to the top-left
  corner of the sign's bounding box, computed in \<open>double\<close>, and the flag set when it
  compares below 50.0.
\<close>

definition distance :: "MapNode \<Rightarrow> DetectedStopSign \<Rightarrow> double" where
  "distance node sign =
     (let dx = dsub (node_x node) (double_of_int (rect_x (boundingBox sign)));
          dy = dsub (node_y node) (double_of_int (rect_y (boundingBox sign)))
      in dsqrt (dadd (dmul dx dx) (dmul dy dy)))"

definition check_sign :: "MapNode \<Rightarrow> DetectedStopSign \<Rightarrow> MapNode" where
  "check_sign node sign =
     (if dless (distance node sign) (Finite 50.0) then node\<lparr>hasStop := True\<rparr> else node)"

text \<open>The inner loop \<open>for (const auto &sign : signs)\<close>, on one node.\<close>

fun check_signs :: "MapNode \<Rightarrow> DetectedStopSign list \<Rightarrow> MapNode" where
  "check_signs node [] = node"
| "check_signs node (sign # signs) = check_signs (check_sign node sign) signs"

text \<open>
  The outer loop \<open>for (auto &node : route)\<close>. The route is mutated in place; the model
  returns the updated route.
\<close>

fun updateRoutingWithStopSigns :: "MapNode list \<Rightarrow> DetectedStopSign list \<Rightarrow> MapNode list" where
  "updateRoutingWithStopSigns [] signs = []"
| "updateRoutingWithStopSigns (node # route) signs =
     check_signs node signs # updateRoutingWithStopSigns route signs"

section \<open>detectStopSigns\<close>

text \<open>
  An OpenCV matrix \<open>cv::Mat\<close>: its dimensions and its elements, row by row. The frame
  and its HSV conversion hold three 8-bit channels per pixel, a mask one 8-bit value.
  \<open>Mat_empty\<close> is \<open>cv::Mat::empty()\<close>: no data, or no element.
\<close>

record 'a Mat =
  mat_rows :: nat
  mat_cols :: nat
  mat_data :: "'a list"

type_synonym Vec3b = "8 word \<times> 8 word \<times> 8 word"
type_synonym Scalar = "int \<times> int \<times> int"


text \<open>
  \<open>cv::inRange\<close> and the operator \<open>|\<close> on matrices, as OpenCV documents them: an
  element of the result of \<open>inRange\<close> is 255 when every channel of the source element
  lies between the bounds, both included, and 0 otherwise; \<open>|\<close> is the bitwise
  disjunction of the elements.
\<close>

definition in_bounds :: "Scalar \<Rightarrow> Scalar \<Rightarrow> Vec3b \<Rightarrow> bool" where
  "in_bounds lowerb upperb px =
     (case (lowerb, upperb, px) of ((l0, l1, l2), (u0, u1, u2), (c0, c1, c2)) \<Rightarrow>
        l0 \<le> uint c0 \<and> uint c0 \<le> u0 \<and>
        l1 \<le> uint c1 \<and> uint c1 \<le> u1 \<and>
        l2 \<le> uint c2 \<and> uint c2 \<le> u2)"

definition inRange :: "Vec3b Mat \<Rightarrow> Scalar \<Rightarrow> Scalar \<Rightarrow> 8 word Mat" where
  "inRange src lowerb upperb =
     \<lparr>mat_rows = mat_rows src, mat_cols = mat_cols src,
      mat_data = map (\<lambda>px. if in_bounds lowerb upperb px then 255 else 0) (mat_data src)\<rparr>"

definition Mat_or :: "8 word Mat \<Rightarrow> 8 word Mat \<Rightarrow> 8 word Mat" where
  "Mat_or a b = a\<lparr>mat_data := map2 (OR) (mat_data a) (mat_data b)\<rparr>"

text \<open>
  The other OpenCV functions that \<open>detectStopSigns\<close> calls are parameters of the
  model: nothing is assumed of what they compute. Their arguments are those of the
  calls in the source.
\<close>

datatype RetrievalModes = RETR_EXTERNAL | RETR_LIST | RETR_CCOMP | RETR_TREE
datatype ContourApproximationModes = CHAIN_APPROX_NONE | CHAIN_APPROX_SIMPLE
datatype ColorConversionCodes = COLOR_BGR2HSV | COLOR_BGR2GRAY

record opencv =
  cvtColor :: "Vec3b Mat \<Rightarrow> ColorConversionCodes \<Rightarrow> Vec3b Mat"
  erode :: "8 word Mat \<Rightarrow> 8 word Mat \<Rightarrow> Point \<Rightarrow> int \<Rightarrow> 8 word Mat"
  dilate :: "8 word Mat \<Rightarrow> 8 word Mat \<Rightarrow> Point \<Rightarrow> int \<Rightarrow> 8 word Mat"
  findContours :: "8 word Mat \<Rightarrow> RetrievalModes \<Rightarrow> ContourApproximationModes \<Rightarrow> Point list list"
  arcLength :: "Point list \<Rightarrow> bool \<Rightarrow> real"
  approxPolyDP :: "Point list \<Rightarrow> real \<Rightarrow> bool \<Rightarrow> Point list"
  contourArea :: "Point list \<Rightarrow> real"
  boundingRect :: "Point list \<Rightarrow> Rect"

text \<open>The default-constructed \<open>cv::Mat()\<close> passed as the structuring element.\<close>

definition Mat_default :: "'a Mat" where
  "Mat_default = \<lparr>mat_rows = 0, mat_cols = 0, mat_data = []\<rparr>"

text \<open>Lines 44 to 49: the two hue bands of red and their union.\<close>

definition red_mask :: "Vec3b Mat \<Rightarrow> 8 word Mat" where
  "red_mask hsv =
     (let mask1 = inRange hsv (0, 70, 50) (10, 255, 255);
          mask2 = inRange hsv (170, 70, 50) (180, 255, 255)
      in Mat_or mask1 mask2)"

text \<open>
  Lines 59 to 79: the loop over the contours. \<open>detectedSigns\<close> is the vector that
  \<open>push_back\<close> extends.
\<close>

fun detect_loop :: "opencv \<Rightarrow> Point list list \<Rightarrow> DetectedStopSign list \<Rightarrow> DetectedStopSign list" where
  "detect_loop cv [] detectedSigns = detectedSigns"
| "detect_loop cv (cnt # contours) detectedSigns =
     (let perimeter = arcLength cv cnt True;
          approx = approxPolyDP cv cnt (0.02 * perimeter) True
      in if length approx = 8 \<and> contourArea cv approx > 1000
         then let bbox = boundingRect cv approx;
                  sign = \<lparr>boundingBox = bbox, contour = approx\<rparr>
              in detect_loop cv contours (detectedSigns @ [sign])
         else detect_loop cv contours detectedSigns)"

definition detectStopSigns :: "opencv \<Rightarrow> Vec3b Mat \<Rightarrow> DetectedStopSign list" where
  "detectStopSigns cv frame =
     (let hsv = cvtColor cv frame COLOR_BGR2HSV;
          mask = red_mask hsv;
          mask = erode cv mask Mat_default (-1, -1) 2;
          mask = dilate cv mask Mat_default (-1, -1) 2;
          contours = findContours cv mask RETR_EXTERNAL CHAIN_APPROX_SIMPLE
      in detect_loop cv contours [])"

section \<open>main\<close>


definition sample_route :: "MapNode list" where
  "sample_route =
     [\<lparr>node_x = Finite 100.0, node_y = Finite 150.0, hasStop = False\<rparr>,
      \<lparr>node_x = Finite 200.0, node_y = Finite 250.0, hasStop = False\<rparr>,
      \<lparr>node_x = Finite 300.0, node_y = Finite 350.0, hasStop = False\<rparr>]"



section \<open>Notions of the specification\<close>

text \<open>
  The Euclidean distance of two points of the plane and the top-left corner of a
  detection's bounding box, in the words of the specification. \<open>exact_distance\<close> is
  the Euclidean distance of a node to that corner, in exact real arithmetic; it exists
  when the node's coordinates are finite and the corner's are values of a C++ \<open>int\<close>.
\<close>

definition euclidean :: "real \<times> real \<Rightarrow> real \<times> real \<Rightarrow> real" where
  "euclidean p q = sqrt ((fst p - fst q)\<^sup>2 + (snd p - snd q)\<^sup>2)"

definition top_left :: "DetectedStopSign \<Rightarrow> real \<times> real" where
  "top_left sign =
     (real_of_int (rect_x (boundingBox sign)), real_of_int (rect_y (boundingBox sign)))"

definition exact_distance :: "MapNode \<Rightarrow> DetectedStopSign \<Rightarrow> real option" where
  "exact_distance node sign =
     (case node_x node of
        Finite x \<Rightarrow>
          (case node_y node of
             Finite y \<Rightarrow>
               if int32 (rect_x (boundingBox sign)) \<and> int32 (rect_y (boundingBox sign))
               then Some (euclidean (x, y) (top_left sign)) else None
           | _ \<Rightarrow> None)
      | _ \<Rightarrow> None)"

text \<open>
  The computation of lines 115 to 117 once the two differences are taken: \<open>a\<close> and
  \<open>b\<close> are the exact differences, which the subtractions round.
\<close>

definition rounded_norm :: "real \<Rightarrow> real \<Rightarrow> double" where
  "rounded_norm a b =
     dsqrt (dadd (dmul (round64 a) (round64 a)) (dmul (round64 b) (round64 b)))"

section \<open>An instance of the library\<close>

text \<open>
  A small instance of the OpenCV functions, for evaluating \<open>detectStopSigns\<close> on a
  concrete frame. The area of a polygon is Gauss's shoelace formula and the bounding
  rectangle spans the smallest and largest coordinates, as in OpenCV; the colour
  conversion, the morphology and the polygon approximation leave their argument as it
  is, and the contour search yields three fixed contours when the mask has a foreground
  element: a small octagon, a square and a large octagon.
\<close>

fun shoelace :: "Point \<Rightarrow> Point list \<Rightarrow> int" where
  "shoelace first [] = 0"
| "shoelace first [p] = fst p * snd first - fst first * snd p"
| "shoelace first (p # q # ps) = (fst p * snd q - fst q * snd p) + shoelace first (q # ps)"

definition polygon_area :: "Point list \<Rightarrow> real" where
  "polygon_area ps = (case ps of [] \<Rightarrow> 0 | p # _ \<Rightarrow> \<bar>real_of_int (shoelace p ps)\<bar> / 2)"

definition bounding_box :: "Point list \<Rightarrow> Rect" where
  "bounding_box ps =
     (case ps of [] \<Rightarrow> \<lparr>rect_x = 0, rect_y = 0, rect_width = 0, rect_height = 0\<rparr>
      | p # qs \<Rightarrow>
          (let x0 = fold min (map fst qs) (fst p); x1 = fold max (map fst qs) (fst p);
               y0 = fold min (map snd qs) (snd p); y1 = fold max (map snd qs) (snd p)
           in \<lparr>rect_x = x0, rect_y = y0, rect_width = x1 - x0 + 1, rect_height = y1 - y0 + 1\<rparr>))"

definition octagon :: "int \<Rightarrow> Point list" where
  "octagon s =
     [(s, 0), (3 * s, 0), (4 * s, s), (4 * s, 3 * s), (3 * s, 4 * s), (s, 4 * s), (0, 3 * s), (0, s)]"

definition square :: "int \<Rightarrow> Point list" where
  "square s = [(0, 0), (s, 0), (s, s), (0, s)]"

definition sample_cv :: opencv where
  "sample_cv =
     \<lparr>cvtColor = (\<lambda>src code. src),
      erode = (\<lambda>src kernel anchor iterations. src),
      dilate = (\<lambda>src kernel anchor iterations. src),
      findContours = (\<lambda>image mode method.
        if list_ex (\<lambda>v. v \<noteq> 0) (mat_data image)
        then [octagon 2, square 100, octagon 20] else []),
      arcLength = (\<lambda>curve closed. 0),
      approxPolyDP = (\<lambda>curve epsilon closed. curve),
      contourArea = polygon_area,
      boundingRect = bounding_box\<rparr>"

text \<open>A frame of two pixels, read as HSV by \<open>sample_cv\<close>: the first is red.\<close>

definition red_pixel_frame :: "Vec3b Mat" where
  "red_pixel_frame = \<lparr>mat_rows = 1, mat_cols = 2, mat_data = [(5, 100, 100), (90, 100, 100)]\<rparr>"


section \<open>Rounding to binary64\<close>

lemma round_even_error: "\<bar>of_int (round_even t) - t\<bar> \<le> 1 / 2"
  unfolding round_even_def Let_def by (auto; linarith)

lemma round_even_of_int: "round_even (of_int n) = n"
  by (simp add: round_even_def)

lemma ulp_pos: "0 < ulp x"
  by (simp add: ulp_def)

lemma ulp_le: "x \<noteq> 0 \<Longrightarrow> ulp x \<le> \<bar>x\<bar> / 2 ^ 52 \<or> ulp x = 1 / 2 ^ 1074"
proof (cases "- 1022 \<le> \<lfloor>log 2 \<bar>x\<bar>\<rfloor>")
  case True
  assume "x \<noteq> 0"
  then have pos: "0 < \<bar>x\<bar>" by simp
  from True have e: "expo x = \<lfloor>log 2 \<bar>x\<bar>\<rfloor>" by (simp add: expo_def)
  have "2 powr of_int \<lfloor>log 2 \<bar>x\<bar>\<rfloor> \<le> 2 powr log 2 \<bar>x\<bar>"
    by (rule powr_mono) simp_all
  also have "\<dots> = \<bar>x\<bar>" using pos by simp
  finally have le: "2 powr of_int \<lfloor>log 2 \<bar>x\<bar>\<rfloor> \<le> \<bar>x\<bar>" .
  have "ulp x = 2 powr of_int \<lfloor>log 2 \<bar>x\<bar>\<rfloor> / 2 powr 52"
    by (simp add: ulp_def e powr_diff)
  also have "\<dots> = 2 powr of_int \<lfloor>log 2 \<bar>x\<bar>\<rfloor> / 2 ^ 52" by simp
  also have "\<dots> \<le> \<bar>x\<bar> / 2 ^ 52" using le by (simp add: divide_right_mono)
  finally show ?thesis by simp
next
  case False
  then have "expo x = - 1022" by (simp add: expo_def)
  then have "ulp x = 2 powr (- 1074)" by (simp add: ulp_def)
  also have "\<dots> = 1 / 2 ^ 1074" by (simp add: powr_minus_divide)
  finally show ?thesis by simp
qed

lemma round_error:
  "\<bar>of_int (round_even (x / ulp x)) * ulp x - x\<bar> \<le> \<bar>x\<bar> / 2 ^ 53 + 1 / 2 ^ 1075"
proof (cases "x = 0")
  case True
  then show ?thesis by (simp add: round_even_def)
next
  case False
  let ?u = "ulp x"
  have u: "0 < ?u" by (rule ulp_pos)
  have "of_int (round_even (x / ?u)) * ?u - x = (of_int (round_even (x / ?u)) - x / ?u) * ?u"
    using u by (simp add: algebra_simps)
  then have "\<bar>of_int (round_even (x / ?u)) * ?u - x\<bar> = \<bar>of_int (round_even (x / ?u)) - x / ?u\<bar> * ?u"
    using u by (simp add: abs_mult)
  also have "\<dots> \<le> 1 / 2 * ?u"
    using round_even_error [of "x / ?u"] u by (intro mult_right_mono) simp_all
  also have "\<dots> \<le> \<bar>x\<bar> / 2 ^ 53 + 1 / 2 ^ 1075"
    using ulp_le [OF False] by auto
  finally show ?thesis .
qed

lemma round64_cases:
  obtains "0 < x" "round64 x = PInf" | "x < 0" "round64 x = MInf"
  | r where "round64 x = Finite r" "\<bar>r - x\<bar> \<le> \<bar>x\<bar> / 2 ^ 53 + 1 / 2 ^ 1075"
proof (cases "2 ^ 1024 \<le> \<bar>of_int (round_even (x / ulp x)) * ulp x\<bar>")
  case False
  then have "round64 x = Finite (of_int (round_even (x / ulp x)) * ulp x)"
    by (simp add: round64_def Let_def)
  then show ?thesis using round_error [of x] that(3) by blast
next
  case True
  have "x \<noteq> 0"
  proof
    assume "x = 0"
    with True show False by (simp add: round_even_def)
  qed
  then consider "0 < x" | "x < 0" by linarith
  then show ?thesis
  proof cases
    case 1
    with True have "round64 x = PInf" by (simp add: round64_def Let_def)
    with 1 show ?thesis by (rule that(1))
  next
    case 2
    with True have "round64 x = MInf" by (simp add: round64_def Let_def)
    with 2 show ?thesis by (rule that(2))
  qed
qed

lemma round64_finite:
  assumes "\<bar>x\<bar> \<le> 2 ^ 1023"
  shows "\<exists>r. round64 x = Finite r \<and> \<bar>r - x\<bar> \<le> \<bar>x\<bar> / 2 ^ 53 + 1 / 2 ^ 1075"
proof -
  let ?r = "of_int (round_even (x / ulp x)) * ulp x"
  have "\<bar>?r\<bar> \<le> \<bar>x\<bar> + \<bar>?r - x\<bar>" by simp
  also have "\<dots> \<le> \<bar>x\<bar> + (\<bar>x\<bar> / 2 ^ 53 + 1 / 2 ^ 1075)"
    using round_error [of x] by simp
  also have "\<dots> \<le> 2 ^ 1023 + (2 ^ 1023 / 2 ^ 53 + 1 / 2 ^ 1075)"
    using assms by (intro add_mono divide_right_mono) simp_all
  also have "\<dots> < (2 :: real) ^ 1024" by simp
  finally have "\<not> 2 ^ 1024 \<le> \<bar>?r\<bar>" by simp
  then have "round64 x = Finite ?r" by (simp add: round64_def Let_def)
  then show ?thesis using round_error [of x] by simp
qed



lemma floor_log2_less:
  assumes "0 < a" "a < 2 powr of_int n"
  shows "\<lfloor>log 2 a\<rfloor> < n"
proof -
  have "log 2 a < of_int n"
    using assms by (simp add: log_less_iff)
  then show ?thesis by linarith
qed

lemma round64_exact:
  assumes m: "\<bar>m\<bar> < 2 ^ 53" and k: "k \<le> 1074"
  shows "round64 (of_int m / 2 ^ k) = Finite (of_int m / 2 ^ k)"
proof (cases "m = 0")
  case True
  then show ?thesis by (simp add: round64_def round_even_def)
next
  case False
  let ?x = "real_of_int m / 2 ^ k"
  have pos: "0 < \<bar>?x\<bar>" using False by simp
  have "\<bar>real_of_int m\<bar> < 2 ^ 53"
    using m by (metis of_int_abs of_int_less_numeral_power_cancel_iff)
  then have "\<bar>?x\<bar> < 2 ^ 53 / 2 ^ k"
    by (simp add: divide_strict_right_mono)
  also have "\<dots> = 2 powr of_int (53 - int k)"
    by (simp add: powr_diff powr_realpow)
  finally have "\<lfloor>log 2 \<bar>?x\<bar>\<rfloor> < 53 - int k"
    using pos by (intro floor_log2_less)
  then have e: "expo ?x \<le> 52 - int k"
    using k by (simp add: expo_def)
  define n where "n = nat (52 - int k - expo ?x)"
  have n: "int n = 52 - int k - expo ?x" using e by (simp add: n_def)
  have "ulp ?x = 2 powr (of_int (52 - int k - int n) - 52)"
    using n by (simp add: ulp_def)
  also have "\<dots> = 1 / (2 ^ k * 2 ^ n)"
    by (simp add: powr_diff powr_realpow powr_minus_divide field_simps)
  finally have u: "ulp ?x = 1 / (2 ^ k * 2 ^ n)" .
  have q: "?x / ulp ?x = of_int (m * 2 ^ n)"
    by (simp add: u)
  have r: "of_int (round_even (?x / ulp ?x)) * ulp ?x = ?x"
    unfolding q round_even_of_int by (simp add: u)
  have "\<bar>?x\<bar> \<le> \<bar>real_of_int m\<bar>"
    using mult_left_mono [of 1 "2 ^ k" "\<bar>real_of_int m\<bar>"] by (simp add: divide_le_eq)
  also have "\<dots> < 2 ^ 53" by fact
  also have "\<dots> < (2 :: real) ^ 1024" by simp
  finally have "\<not> 2 ^ 1024 \<le> \<bar>?x\<bar>" by simp
  then show ?thesis
    unfolding round64_def Let_def r by simp
qed

lemma round64_of_int: "\<bar>m\<bar> < 2 ^ 53 \<Longrightarrow> round64 (of_int m) = Finite (of_int m)"
  using round64_exact [of m 0] by simp

lemma round64_numeral [simp]:
  "numeral w < (2 :: int) ^ 53 \<Longrightarrow> round64 (numeral w) = Finite (numeral w)"
  "numeral w < (2 :: int) ^ 53 \<Longrightarrow> round64 (- numeral w) = Finite (- numeral w)"
  "round64 0 = Finite 0" "round64 1 = Finite 1"
  using round64_of_int [of "numeral w"] round64_of_int [of "- numeral w"]
    round64_of_int [of 0] round64_of_int [of 1]
  by simp_all

lemma ulp_eq:
  assumes "2 ^ e \<le> \<bar>x\<bar>" "\<bar>x\<bar> < 2 ^ Suc e"
  shows "ulp x = 2 ^ e / 2 ^ 52"
proof -
  have pos: "0 < \<bar>x\<bar>"
    using assms(1) by (smt (verit) zero_less_power)
  have "\<lfloor>log 2 \<bar>x\<bar>\<rfloor> = int e"
    using assms pos by (subst floor_log_eq_powr_iff) (simp_all add: powr_realpow powr_add)
  then have "expo x = int e" by (simp add: expo_def)
  then show ?thesis by (simp add: ulp_def powr_diff powr_realpow)
qed

lemma round64_eval:
  assumes "2 ^ e \<le> \<bar>x\<bar>" "\<bar>x\<bar> < 2 ^ Suc e"
    and "round_even (x * 2 ^ 52 / 2 ^ e) = n"
    and "\<bar>real_of_int n * 2 ^ e / 2 ^ 52\<bar> < 2 ^ 1024"
  shows "round64 x = Finite (of_int n * 2 ^ e / 2 ^ 52)"
proof -
  have u: "ulp x = 2 ^ e / 2 ^ 52" using assms(1,2) by (rule ulp_eq)
  have "x / ulp x = x * 2 ^ 52 / 2 ^ e" by (simp add: u)
  then have "of_int (round_even (x / ulp x)) * ulp x = of_int n * 2 ^ e / 2 ^ 52"
    using assms(3) by (simp add: u)
  then show ?thesis
    using assms(4) by (simp add: round64_def Let_def)
qed

lemma sq_near_14: "round64 ((14 - 1 / 2 ^ 49) * (14 - 1 / 2 ^ 49)) = Finite (196 - 1 / 2 ^ 44)"
proof -
  have "round_even ((14 - 1 / 2 ^ 49) * (14 - 1 / 2 ^ 49) * 2 ^ 52 / 2 ^ 7) = 6896136929411070"
    by (simp add: round_even_def)
  from round64_eval [of 7, OF _ _ this]
  show ?thesis by simp
qed

lemma sum_near_2500: "round64 (2304 + (196 - 1 / 2 ^ 44)) = Finite 2500"
proof -
  have "round_even ((2304 + (196 - 1 / 2 ^ 44)) * 2 ^ 52 / 2 ^ 11) = 5497558138880000"
    by (simp add: round_even_def)
  from round64_eval [of 11, OF _ _ this]
  show ?thesis by simp
qed

lemma near_14_exact: "round64 (14 - 1 / 2 ^ 49) = Finite (14 - 1 / 2 ^ 49)"
  using round64_exact [of 7881299347898367 49] by simp



lemma round_even_nonneg: "0 \<le> t \<Longrightarrow> 0 \<le> round_even t"
  by (auto simp: round_even_def Let_def)

lemma round64_nonneg:
  assumes "0 \<le> x" "round64 x = Finite r"
  shows "0 \<le> r"
proof -
  have "0 \<le> x / ulp x" using assms(1) ulp_pos [of x] by simp
  then have "0 \<le> real_of_int (round_even (x / ulp x)) * ulp x"
    using round_even_nonneg ulp_pos [of x] by (simp add: less_imp_le)
  moreover have "r = real_of_int (round_even (x / ulp x)) * ulp x"
    using assms(2) by (auto simp: round64_def Let_def split: if_splits)
  ultimately show ?thesis by simp
qed

lemma tiny: "8192 / 2 ^ 53 + 1 / 2 ^ 1075 \<le> (1 / 1000000000 :: real)"
  by simp

lemma round64_bounded:
  assumes "\<bar>x\<bar> \<le> 8192"
  shows "\<exists>r. round64 x = Finite r \<and> \<bar>r - x\<bar> \<le> 1 / 1000000000"
proof -
  have "\<bar>x\<bar> \<le> 2 ^ 1023" using assms by simp
  from round64_finite [OF this] obtain r where r: "round64 x = Finite r"
    and err: "\<bar>r - x\<bar> \<le> \<bar>x\<bar> / 2 ^ 53 + 1 / 2 ^ 1075" by blast
  have "\<bar>x\<bar> / 2 ^ 53 \<le> 8192 / 2 ^ 53"
    using assms by (intro divide_right_mono) simp_all
  with err tiny have "\<bar>r - x\<bar> \<le> 1 / 1000000000" by linarith
  with r show ?thesis by blast
qed

lemma round64_relative:
  assumes "round64 x = Finite r"
  shows "\<bar>r - x\<bar> \<le> \<bar>x\<bar> / 100000 + 1 / 100000"
proof (cases x rule: round64_cases)
  case (3 r')
  have "\<bar>x\<bar> / 2 ^ 53 \<le> \<bar>x\<bar> / 100000" by (intro divide_left_mono) simp_all
  moreover have "1 / 2 ^ 1075 \<le> (1 / 100000 :: real)" by simp
  ultimately show ?thesis using 3 assms by simp
qed (use assms in simp_all)





lemma abs_le_64:
  assumes "a * a \<le> 4096"
  shows "\<bar>a\<bar> \<le> (64 :: real)"
proof -
  from assms have "a\<^sup>2 \<le> 64\<^sup>2" by (simp add: power2_eq_square)
  then have "\<bar>a\<bar> \<le> \<bar>64 :: real\<bar>" by (rule abs_le_square_iff [THEN iffD2])
  then show ?thesis by simp
qed

lemma relative_lower:
  fixes t X :: real
  assumes "\<bar>t - X\<bar> \<le> \<bar>X\<bar> / 100000 + 1 / 100000" "2509 \<le> X"
  shows "2505 \<le> t"
  using assms by linarith



lemma round64_sqrt_small:
  assumes "0 \<le> s" "s \<le> 2495"
  shows "dless (round64 (sqrt s)) (Finite 50)"
proof -
  have "sqrt s \<le> sqrt ((4996 / 100)\<^sup>2)"
    using assms by (intro real_sqrt_le_mono) (simp add: power2_eq_square)
  then have le: "sqrt s \<le> 4996 / 100" by simp
  have ge: "0 \<le> sqrt s" using assms by simp
  then have "\<bar>sqrt s\<bar> \<le> 8192" using le by simp
  from round64_bounded [OF this] obtain r where r: "round64 (sqrt s) = Finite r"
    and err: "\<bar>r - sqrt s\<bar> \<le> 1 / 1000000000" by blast
  from err le have "r < 50" by linarith
  with r show ?thesis by simp
qed

lemma round64_sqrt_big:
  assumes "2505 \<le> s"
  shows "\<not> dless (round64 (sqrt s)) (Finite 50)"
proof -
  have "sqrt ((5004 / 100)\<^sup>2) \<le> sqrt s"
    using assms by (intro real_sqrt_le_mono) (simp add: power2_eq_square)
  then have ge: "5004 / 100 \<le> sqrt s" by simp
  show ?thesis
  proof (cases "sqrt s" rule: round64_cases)
    case 1
    then show ?thesis by simp
  next
    case 2
    then show ?thesis using ge by linarith
  next
    case (3 r)
    from round64_relative [OF 3(1)] ge have "50 \<le> r" by linarith
    with 3(1) show ?thesis by simp
  qed
qed




lemma square_error:
  assumes "\<bar>a\<bar> \<le> 64"
  shows "\<exists>q. dmul (round64 a) (round64 a) = Finite q \<and> 0 \<le> q \<and>
    \<bar>q - a * a\<bar> \<le> 1 / 1000000"
proof -
  have "\<bar>a\<bar> \<le> 8192" using assms by linarith
  from round64_bounded [OF this] obtain r where r: "round64 a = Finite r"
    and err: "\<bar>r - a\<bar> \<le> 1 / 1000000000" by blast
  have rb1: "\<bar>r\<bar> \<le> 65" using err assms by linarith
  have rb2: "\<bar>r + a\<bar> \<le> 129" using err assms by linarith
  have "r * r - a * a = (r - a) * (r + a)" by (simp add: algebra_simps)
  then have "\<bar>r * r - a * a\<bar> = \<bar>r - a\<bar> * \<bar>r + a\<bar>" by (simp only: abs_mult)
  also have "\<dots> \<le> 1 / 1000000000 * 129"
    using err rb2 by (intro mult_mono) simp_all
  finally have sq: "\<bar>r * r - a * a\<bar> \<le> 129 / 1000000000" by simp
  have "\<bar>r\<bar> * \<bar>r\<bar> \<le> 65 * 65"
    using rb1 by (intro mult_mono) simp_all
  then have "\<bar>r * r\<bar> \<le> 8192" by (simp add: abs_mult)
  from round64_bounded [OF this] obtain q where q: "round64 (r * r) = Finite q"
    and qerr: "\<bar>q - r * r\<bar> \<le> 1 / 1000000000" by blast
  have "0 \<le> r * r" by simp
  then have q0: "0 \<le> q" using q by (rule round64_nonneg)
  have qa: "\<bar>q - a * a\<bar> \<le> 1 / 1000000" using sq qerr by linarith
  have "dmul (round64 a) (round64 a) = Finite q" by (simp only: r dmul.simps q)
  with q0 qa show ?thesis by blast
qed



lemma square_cases:
  "dmul (round64 a) (round64 a) = PInf \<or>
   (\<exists>q. dmul (round64 a) (round64 a) = Finite q \<and> 0 \<le> q \<and> (64 \<le> \<bar>a\<bar> \<longrightarrow> 3900 \<le> q))"
proof (cases a rule: round64_cases)
  case 1
  then show ?thesis by (simp only: dmul.simps) simp
next
  case 2
  then show ?thesis by (simp only: dmul.simps) simp
next
  case (3 r)
  note r = \<open>round64 a = Finite r\<close>
  have m: "dmul (round64 a) (round64 a) = round64 (r * r)" by (simp only: r dmul.simps)
  have big: "63 * 63 \<le> r * r" if "64 \<le> \<bar>a\<bar>"
  proof -
    from round64_relative [OF r] that have "63 \<le> \<bar>r\<bar>" by linarith
    then have "63 * 63 \<le> \<bar>r\<bar> * \<bar>r\<bar>" by (intro mult_mono) simp_all
    also have "\<bar>r\<bar> * \<bar>r\<bar> = r * r" by (simp only: abs_mult_self_eq)
    finally show ?thesis .
  qed
  have nn: "0 \<le> r * r" by simp
  show ?thesis
  proof (cases "r * r" rule: round64_cases)
    case 1
    then show ?thesis using m by simp
  next
    case 2
    then have False using nn by linarith
    then show ?thesis ..
  next
    case (3 q)
    have q0: "0 \<le> q" using nn 3(1) by (rule round64_nonneg)
    have "3900 \<le> q" if "64 \<le> \<bar>a\<bar>"
      using round64_relative [OF 3(1)] big [OF that] nn by linarith
    then have "64 \<le> \<bar>a\<bar> \<longrightarrow> 3900 \<le> q" by blast
    with q0 m 3(1) show ?thesis by (intro disjI2 exI [of _ q]) simp
  qed
qed

lemma dsqrt_nonneg: "0 \<le> t \<Longrightarrow> dsqrt (Finite t) = round64 (sqrt t)"
  by simp

lemma rounded_norm_near:
  assumes "sqrt (a\<^sup>2 + b\<^sup>2) \<le> 499 / 10"
  shows "dless (rounded_norm a b) (Finite 50)"
proof -
  have "a\<^sup>2 + b\<^sup>2 \<le> (499 / 10)\<^sup>2"
    using assms by (intro sqrt_le_D)
  then have sum: "a * a + b * b \<le> 249001 / 100"
    by (simp add: power2_eq_square)
  have nn: "0 \<le> a * a" "0 \<le> b * b" by simp_all
  have "a * a \<le> 4096" "b * b \<le> 4096"
    using sum nn by linarith+
  then have ab: "\<bar>a\<bar> \<le> 64" "\<bar>b\<bar> \<le> 64"
    by (simp_all add: abs_le_64)
  from square_error [OF ab(1)] obtain p where p: "dmul (round64 a) (round64 a) = Finite p"
    "0 \<le> p" "\<bar>p - a * a\<bar> \<le> 1 / 1000000" by blast
  from square_error [OF ab(2)] obtain q where q: "dmul (round64 b) (round64 b) = Finite q"
    "0 \<le> q" "\<bar>q - b * b\<bar> \<le> 1 / 1000000" by blast
  have pq: "p + q \<le> 2491" "0 \<le> p + q"
    using sum p(2,3) q(2,3) by linarith+
  then have "\<bar>p + q\<bar> \<le> 8192" by linarith
  from round64_bounded [OF this] obtain t where t: "round64 (p + q) = Finite t"
    and terr: "\<bar>t - (p + q)\<bar> \<le> 1 / 1000000000" by blast
  have t0: "0 \<le> t" using pq(2) t by (rule round64_nonneg)
  have "t \<le> 2495" using terr pq by linarith
  with t0 have "dless (round64 (sqrt t)) (Finite 50)" by (intro round64_sqrt_small)
  moreover have "rounded_norm a b = round64 (sqrt t)"
    by (simp only: rounded_norm_def p(1) q(1) dadd.simps t dsqrt_nonneg [OF t0])
  ultimately show ?thesis by simp
qed

lemma rounded_norm_far:
  assumes "501 / 10 \<le> sqrt (a\<^sup>2 + b\<^sup>2)"
  shows "\<not> dless (rounded_norm a b) (Finite 50)"
proof -
  have "(501 / 10)\<^sup>2 \<le> (sqrt (a\<^sup>2 + b\<^sup>2))\<^sup>2"
    using assms by (intro power_mono) simp_all
  then have sum: "251001 / 100 \<le> a * a + b * b"
    by (simp add: power2_eq_square)
  let ?A = "dmul (round64 a) (round64 a)" and ?B = "dmul (round64 b) (round64 b)"
  from square_cases [of a] square_cases [of b]
  consider "?A = PInf" "?B = PInf"
    | q where "?A = PInf" "?B = Finite q"
    | p where "?A = Finite p" "?B = PInf"
    | p q where "?A = Finite p" "0 \<le> p" "64 \<le> \<bar>a\<bar> \<longrightarrow> 3900 \<le> p"
      "?B = Finite q" "0 \<le> q" "64 \<le> \<bar>b\<bar> \<longrightarrow> 3900 \<le> q"
    by blast
  then show ?thesis
  proof cases
    case 1
    then show ?thesis by (simp add: rounded_norm_def)
  next
    case 2
    then show ?thesis by (simp add: rounded_norm_def)
  next
    case 3
    then show ?thesis by (simp add: rounded_norm_def)
  next
    case 4
    have low: "2509 \<le> p + q"
    proof (cases "64 \<le> \<bar>a\<bar> \<or> 64 \<le> \<bar>b\<bar>")
      case True
      with 4(2,3,5,6) show ?thesis by linarith
    next
      case False
      then have ab: "\<bar>a\<bar> \<le> 64" "\<bar>b\<bar> \<le> 64" by linarith+
      from square_error [OF ab(1)] 4(1) have "\<bar>p - a * a\<bar> \<le> 1 / 1000000" by simp
      moreover from square_error [OF ab(2)] 4(4) have "\<bar>q - b * b\<bar> \<le> 1 / 1000000" by simp
      ultimately show ?thesis using sum by linarith
    qed
    have h: "rounded_norm a b = dsqrt (round64 (p + q))"
      by (simp only: rounded_norm_def 4(1,4) dadd.simps)
    show ?thesis
    proof (cases "p + q" rule: round64_cases)
      case 1
      then show ?thesis using h by simp
    next
      case 2
      with low show ?thesis by linarith
    next
      case (3 t)
      from round64_relative [OF 3(1)] low have t: "2505 \<le> t" by (rule relative_lower)
      then have "\<not> dless (round64 (sqrt t)) (Finite 50)" by (rule round64_sqrt_big)
      moreover have "0 \<le> t" using t by linarith
      ultimately show ?thesis using h 3(1) by simp
    qed
  qed
qed

lemma rounded_norm_near_sq:
  assumes "a * a + b * b \<le> 2490"
  shows "dless (rounded_norm a b) (Finite 50)"
proof -
  have "a\<^sup>2 + b\<^sup>2 \<le> (499 / 10)\<^sup>2"
    using assms by (simp add: power2_eq_square)
  then have "sqrt (a\<^sup>2 + b\<^sup>2) \<le> 499 / 10"
    by (intro real_le_lsqrt) simp_all
  then show ?thesis by (rule rounded_norm_near)
qed

lemma rounded_norm_far_sq:
  assumes "2511 \<le> a * a + b * b"
  shows "\<not> dless (rounded_norm a b) (Finite 50)"
proof -
  have "(501 / 10)\<^sup>2 \<le> a\<^sup>2 + b\<^sup>2"
    using assms by (simp add: power2_eq_square)
  then have "501 / 10 \<le> sqrt (a\<^sup>2 + b\<^sup>2)"
    by (intro real_le_rsqrt)
  then show ?thesis by (rule rounded_norm_far)
qed

lemma rounded_norm_boundary: "rounded_norm 48 (14 - 1 / 2 ^ 49) = Finite 50"
proof -
  have a: "dmul (round64 48) (round64 48) = Finite 2304" by simp
  have b: "dmul (round64 (14 - 1 / 2 ^ 49)) (round64 (14 - 1 / 2 ^ 49)) =
      Finite (196 - 1 / 2 ^ 44)"
    by (simp only: near_14_exact dmul.simps sq_near_14)
  have c: "dadd (Finite 2304) (Finite (196 - 1 / 2 ^ 44)) = Finite 2500"
    by (simp only: dadd.simps sum_near_2500)
  have "sqrt 2500 = 50"
    using real_sqrt_abs [of 50] by simp
  then have d: "dsqrt (Finite 2500) = Finite 50" by simp
  show ?thesis by (simp only: rounded_norm_def a b c d)
qed

section \<open>The route annotation, node by node\<close>

lemma sqrt_less_50: "sqrt a < 50 \<longleftrightarrow> a < 2500"
proof -
  have "sqrt 2500 = 50"
    using real_sqrt_abs [of 50] by simp
  then show ?thesis
    using real_sqrt_less_iff [of a 2500] by simp
qed

lemma double_of_int32: "int32 i \<Longrightarrow> double_of_int i = Finite (real_of_int i)"
proof -
  assume "int32 i"
  then have "\<bar>i\<bar> < 2 ^ 53" by (simp add: int32_def; linarith)
  then show ?thesis unfolding double_of_int_def by (rule round64_of_int)
qed

lemma distance_finite:
  assumes "node_x node = Finite x" "node_y node = Finite y"
    and "int32 (rect_x (boundingBox sign))" "int32 (rect_y (boundingBox sign))"
  shows "distance node sign =
    rounded_norm (x - real_of_int (rect_x (boundingBox sign)))
      (y - real_of_int (rect_y (boundingBox sign)))"
  by (simp only: distance_def Let_def assms(1,2) double_of_int32 [OF assms(3)]
      double_of_int32 [OF assms(4)] dsub.simps rounded_norm_def)

lemma distance_literal:
  assumes "int32 bx" "int32 by"
  shows "distance \<lparr>node_x = Finite x, node_y = Finite y, hasStop = h\<rparr>
      \<lparr>boundingBox = \<lparr>rect_x = bx, rect_y = by, rect_width = w, rect_height = ht\<rparr>,
        contour = c\<rparr> =
    rounded_norm (x - real_of_int bx) (y - real_of_int by)"
  using assms by (subst distance_finite [of _ x y]) simp_all

lemma exact_distance_Some:
  assumes "exact_distance node sign = Some d"
  obtains x y where "node_x node = Finite x" "node_y node = Finite y"
    "int32 (rect_x (boundingBox sign))" "int32 (rect_y (boundingBox sign))"
    "d = sqrt ((x - real_of_int (rect_x (boundingBox sign)))\<^sup>2 +
               (y - real_of_int (rect_y (boundingBox sign)))\<^sup>2)"
  using assms
  by (auto simp: exact_distance_def euclidean_def top_left_def
      split: double.splits if_splits)

lemma exact_distance_near:
  assumes "exact_distance node sign = Some d" "d \<le> 499 / 10"
  shows "dless (distance node sign) (Finite 50)"
proof -
  from assms(1) obtain x y where xy: "node_x node = Finite x" "node_y node = Finite y"
    "int32 (rect_x (boundingBox sign))" "int32 (rect_y (boundingBox sign))"
    and d: "d = sqrt ((x - real_of_int (rect_x (boundingBox sign)))\<^sup>2 +
               (y - real_of_int (rect_y (boundingBox sign)))\<^sup>2)"
    by (rule exact_distance_Some)
  from assms(2) show ?thesis
    unfolding d distance_finite [OF xy] by (rule rounded_norm_near)
qed

lemma exact_distance_far:
  assumes "exact_distance node sign = Some d" "501 / 10 \<le> d"
  shows "\<not> dless (distance node sign) (Finite 50)"
proof -
  from assms(1) obtain x y where xy: "node_x node = Finite x" "node_y node = Finite y"
    "int32 (rect_x (boundingBox sign))" "int32 (rect_y (boundingBox sign))"
    and d: "d = sqrt ((x - real_of_int (rect_x (boundingBox sign)))\<^sup>2 +
               (y - real_of_int (rect_y (boundingBox sign)))\<^sup>2)"
    by (rule exact_distance_Some)
  from assms(2) show ?thesis
    unfolding d distance_finite [OF xy] by (rule rounded_norm_far)
qed

lemma check_sign_coords:
  "node_x (check_sign node sign) = node_x node" "node_y (check_sign node sign) = node_y node"
  by (simp_all add: check_sign_def)

lemma check_sign_hasStop:
  "hasStop (check_sign node sign) \<longleftrightarrow> hasStop node \<or> dless (distance node sign) (Finite 50)"
  by (simp add: check_sign_def)

lemma distance_check_sign: "distance (check_sign node s) sign = distance node sign"
  by (simp add: distance_def check_sign_coords)

lemma check_signs_coords:
  "node_x (check_signs node signs) = node_x node \<and> node_y (check_signs node signs) = node_y node"
  by (induction signs arbitrary: node) (simp_all add: check_sign_coords)

lemma check_signs_hasStop:
  "hasStop (check_signs node signs) \<longleftrightarrow>
     hasStop node \<or> (\<exists>sign \<in> set signs. dless (distance node sign) (Finite 50))"
  by (induction signs arbitrary: node) (auto simp: check_sign_hasStop distance_check_sign)

lemma check_signs_eq:
  "check_signs node signs =
     node\<lparr>hasStop := hasStop node \<or>
       (\<exists>sign \<in> set signs. dless (distance node sign) (Finite 50))\<rparr>"
  using check_signs_coords [of node signs] check_signs_hasStop [of node signs]
  by (cases node, cases "check_signs node signs") simp

lemma update_map:
  "updateRoutingWithStopSigns route signs = map (\<lambda>node. check_signs node signs) route"
  by (induction route) simp_all

lemma update_nth:
  "i < length route \<Longrightarrow>
     updateRoutingWithStopSigns route signs ! i = check_signs (route ! i) signs"
  by (simp add: update_map)

text \<open>
  C1. After \<open>updateRoutingWithStopSigns\<close>, the flag of a node of the route is set if
  and only if it was set before or, for some detection, the distance that the code
  computes in \<open>double\<close> arithmetic to the top-left corner of the bounding box compares
  strictly below 50.0. In particular a node at Euclidean distance at most 49.9 from a
  detection is marked, and a node that was not marked and lies at Euclidean distance at
  least 50.1 from every detection stays unmarked.
\<close>

theorem updateRouting_marks_iff_computed_near:
  assumes "i < length route"
  shows "(hasStop (updateRoutingWithStopSigns route signs ! i) \<longleftrightarrow>
            hasStop (route ! i) \<or>
            (\<exists>D \<in> set signs. dless (distance (route ! i) D) (Finite 50.0))) \<and>
         ((\<exists>D \<in> set signs. \<exists>d. exact_distance (route ! i) D = Some d \<and> d \<le> 49.9) \<longrightarrow>
            hasStop (updateRoutingWithStopSigns route signs ! i)) \<and>
         (\<not> hasStop (route ! i) \<and>
          (\<forall>D \<in> set signs. \<exists>d. exact_distance (route ! i) D = Some d \<and> 50.1 \<le> d) \<longrightarrow>
            \<not> hasStop (updateRoutingWithStopSigns route signs ! i))"
proof -
  have flag: "hasStop (updateRoutingWithStopSigns route signs ! i) \<longleftrightarrow>
      hasStop (route ! i) \<or> (\<exists>D \<in> set signs. dless (distance (route ! i) D) (Finite 50))"
    using assms by (simp add: update_nth check_signs_hasStop)
  have near: "hasStop (updateRoutingWithStopSigns route signs ! i)"
    if "\<exists>D \<in> set signs. \<exists>d. exact_distance (route ! i) D = Some d \<and> d \<le> 49.9"
  proof -
    from that obtain D d where D: "D \<in> set signs"
      and d: "exact_distance (route ! i) D = Some d" "d \<le> 499 / 10" by auto
    from d have "dless (distance (route ! i) D) (Finite 50)" by (rule exact_distance_near)
    with D flag show ?thesis by blast
  qed
  have far: "\<not> hasStop (updateRoutingWithStopSigns route signs ! i)"
    if "\<not> hasStop (route ! i)"
      and "\<forall>D \<in> set signs. \<exists>d. exact_distance (route ! i) D = Some d \<and> 50.1 \<le> d"
  proof -
    have "\<not> dless (distance (route ! i) D) (Finite 50)" if "D \<in> set signs" for D
    proof -
      from that \<open>\<forall>D \<in> set signs. \<exists>d. exact_distance (route ! i) D = Some d \<and> 50.1 \<le> d\<close>
      obtain d where "exact_distance (route ! i) D = Some d" "501 / 10 \<le> d" by auto
      then show ?thesis by (rule exact_distance_far)
    qed
    with that(1) flag show ?thesis by blast
  qed
  from flag near far show ?thesis by simp
qed

theorem updateRouting_marks_iff_computed_near_witness:
  "hasStop (updateRoutingWithStopSigns
      [\<lparr>node_x = Finite (399 / 8), node_y = Finite 0, hasStop = False\<rparr>,
       \<lparr>node_x = Finite (401 / 8), node_y = Finite 0, hasStop = False\<rparr>]
      [\<lparr>boundingBox = \<lparr>rect_x = 0, rect_y = 0, rect_width = 81, rect_height = 81\<rparr>,
        contour = octagon 20\<rparr>] ! 0) \<and>
   \<not> hasStop (updateRoutingWithStopSigns
      [\<lparr>node_x = Finite (399 / 8), node_y = Finite 0, hasStop = False\<rparr>,
       \<lparr>node_x = Finite (401 / 8), node_y = Finite 0, hasStop = False\<rparr>]
      [\<lparr>boundingBox = \<lparr>rect_x = 0, rect_y = 0, rect_width = 81, rect_height = 81\<rparr>,
        contour = octagon 20\<rparr>] ! 1)"
proof -
  let ?route = "[\<lparr>node_x = Finite (399 / 8), node_y = Finite 0, hasStop = False\<rparr>,
                 \<lparr>node_x = Finite (401 / 8), node_y = Finite 0, hasStop = False\<rparr>]"
  let ?sign = "\<lparr>boundingBox = \<lparr>rect_x = 0, rect_y = 0, rect_width = 81, rect_height = 81\<rparr>,
                 contour = octagon 20\<rparr>"
  have len: "0 < length ?route" "1 < length ?route" by simp_all
  have e0: "exact_distance (?route ! 0) ?sign = Some (399 / 8)"
    by (simp add: exact_distance_def int32_def euclidean_def top_left_def)
  have e1: "exact_distance (?route ! 1) ?sign = Some (401 / 8)"
    by (simp add: exact_distance_def int32_def euclidean_def top_left_def)
  have "exact_distance (?route ! 0) ?sign = Some (399 / 8) \<and> (399 / 8 :: real) \<le> 49.9"
    using e0 by simp
  then have d0: "\<exists>D \<in> set [?sign]. \<exists>d. exact_distance (?route ! 0) D = Some d \<and> d \<le> 49.9"
    by (intro bexI [of _ ?sign] exI [of _ "399 / 8"]) simp_all
  have "exact_distance (?route ! 1) ?sign = Some (401 / 8) \<and> 50.1 \<le> (401 / 8 :: real)"
    using e1 by simp
  then have "\<exists>d. exact_distance (?route ! 1) ?sign = Some d \<and> 50.1 \<le> d"
    by (intro exI [of _ "401 / 8"])
  then have d1: "\<not> hasStop (?route ! 1) \<and>
      (\<forall>D \<in> set [?sign]. \<exists>d. exact_distance (?route ! 1) D = Some d \<and> 50.1 \<le> d)"
    by simp
  from updateRouting_marks_iff_computed_near [OF len(1), of "[?sign]"] d0
  have "hasStop (updateRoutingWithStopSigns ?route [?sign] ! 0)" by blast
  moreover from updateRouting_marks_iff_computed_near [OF len(2), of "[?sign]"] d1
  have "\<not> hasStop (updateRoutingWithStopSigns ?route [?sign] ! 1)" by blast
  ultimately show ?thesis by blast
qed

theorem updateRouting_rounding_counterexample:
  "round64 48 = Finite 48 \<and>
   round64 (14 - 1 / 2 ^ 49) = Finite (14 - 1 / 2 ^ 49) \<and>
   euclidean (48, 14 - 1 / 2 ^ 49) (0, 0) < 50 \<and>
   exact_distance \<lparr>node_x = Finite 48, node_y = Finite (14 - 1 / 2 ^ 49), hasStop = False\<rparr>
     \<lparr>boundingBox = \<lparr>rect_x = 0, rect_y = 0, rect_width = 81, rect_height = 81\<rparr>,
       contour = octagon 20\<rparr> = Some (euclidean (48, 14 - 1 / 2 ^ 49) (0, 0)) \<and>
   distance \<lparr>node_x = Finite 48, node_y = Finite (14 - 1 / 2 ^ 49), hasStop = False\<rparr>
     \<lparr>boundingBox = \<lparr>rect_x = 0, rect_y = 0, rect_width = 81, rect_height = 81\<rparr>,
       contour = octagon 20\<rparr> = Finite 50 \<and>
   \<not> hasStop (updateRoutingWithStopSigns
      [\<lparr>node_x = Finite 48, node_y = Finite (14 - 1 / 2 ^ 49), hasStop = False\<rparr>]
      [\<lparr>boundingBox = \<lparr>rect_x = 0, rect_y = 0, rect_width = 81, rect_height = 81\<rparr>,
        contour = octagon 20\<rparr>] ! 0)"
proof -
  let ?node = "\<lparr>node_x = Finite 48, node_y = Finite (14 - 1 / 2 ^ 49), hasStop = False\<rparr>"
  let ?sign = "\<lparr>boundingBox = \<lparr>rect_x = 0, rect_y = 0, rect_width = 81, rect_height = 81\<rparr>,
                 contour = octagon 20\<rparr>"
  have r: "round64 48 = Finite 48" by simp
  have "(14 - 1 / 2 ^ 49) * (14 - 1 / 2 ^ 49) < (196 :: real)" by simp
  then have "(48 - 0)\<^sup>2 + (14 - 1 / 2 ^ 49 - 0)\<^sup>2 < (2500 :: real)"
    by (simp add: power2_eq_square)
  then have e: "euclidean (48, 14 - 1 / 2 ^ 49) (0, 0) < 50"
    unfolding euclidean_def fst_conv snd_conv by (simp only: sqrt_less_50)
  have x: "exact_distance ?node ?sign = Some (euclidean (48, 14 - 1 / 2 ^ 49) (0, 0))"
    by (simp add: exact_distance_def int32_def top_left_def)
  have "distance ?node ?sign =
      rounded_norm (48 - real_of_int 0) (14 - 1 / 2 ^ 49 - real_of_int 0)"
    by (rule distance_literal) (simp_all add: int32_def)
  then have d: "distance ?node ?sign = Finite 50"
    by (simp only: of_int_0 diff_zero rounded_norm_boundary)
  then have "check_sign ?node ?sign = ?node"
    by (simp add: check_sign_def)
  then have h: "\<not> hasStop (updateRoutingWithStopSigns [?node] [?sign] ! 0)"
    by simp
  from r near_14_exact e x d h show ?thesis by blast
qed

text \<open>
  C4. \<open>updateRoutingWithStopSigns\<close> never clears a flag: a node marked before the call
  is marked after it, and a node marked once the first \<open>k\<close> detections have been
  examined is marked at the end.
\<close>

theorem updateRouting_monotone:
  assumes "i < length route"
  shows "(hasStop (route ! i) \<longrightarrow> hasStop (updateRoutingWithStopSigns route signs ! i)) \<and>
         (hasStop (updateRoutingWithStopSigns route (take k signs) ! i) \<longrightarrow>
            hasStop (updateRoutingWithStopSigns route signs ! i))"
proof -
  have "set (take k signs) \<subseteq> set signs" by (rule set_take_subset)
  then show ?thesis
    using assms by (auto simp: update_nth check_signs_hasStop)
qed

theorem updateRouting_monotone_witness:
  "hasStop (updateRoutingWithStopSigns
      [\<lparr>node_x = Finite 100, node_y = Finite 150, hasStop = True\<rparr>,
       \<lparr>node_x = Finite 200, node_y = Finite 250, hasStop = False\<rparr>]
      [\<lparr>boundingBox = \<lparr>rect_x = 210, rect_y = 260, rect_width = 81, rect_height = 81\<rparr>,
        contour = octagon 20\<rparr>,
       \<lparr>boundingBox = \<lparr>rect_x = 900, rect_y = 900, rect_width = 81, rect_height = 81\<rparr>,
        contour = octagon 20\<rparr>] ! 0) \<and>
   hasStop (updateRoutingWithStopSigns
      [\<lparr>node_x = Finite 100, node_y = Finite 150, hasStop = True\<rparr>,
       \<lparr>node_x = Finite 200, node_y = Finite 250, hasStop = False\<rparr>]
      [\<lparr>boundingBox = \<lparr>rect_x = 210, rect_y = 260, rect_width = 81, rect_height = 81\<rparr>,
        contour = octagon 20\<rparr>,
       \<lparr>boundingBox = \<lparr>rect_x = 900, rect_y = 900, rect_width = 81, rect_height = 81\<rparr>,
        contour = octagon 20\<rparr>] ! 1)"
proof -
  let ?route = "[\<lparr>node_x = Finite 100, node_y = Finite 150, hasStop = True\<rparr>,
                 \<lparr>node_x = Finite 200, node_y = Finite 250, hasStop = False\<rparr>]"
  let ?signs = "[\<lparr>boundingBox = \<lparr>rect_x = 210, rect_y = 260, rect_width = 81, rect_height = 81\<rparr>,
                  contour = octagon 20\<rparr>,
                 \<lparr>boundingBox = \<lparr>rect_x = 900, rect_y = 900, rect_width = 81, rect_height = 81\<rparr>,
                  contour = octagon 20\<rparr>]"
  have len: "0 < length ?route" "1 < length ?route" by simp_all
  have before: "hasStop (?route ! 0)" by simp
  have during: "hasStop (updateRoutingWithStopSigns ?route (take 1 ?signs) ! 1)"
    by (simp add: check_sign_def distance_literal int32_def rounded_norm_near_sq)
  from updateRouting_monotone [OF len(1), of ?signs 0] before
  have "hasStop (updateRoutingWithStopSigns ?route ?signs ! 0)" by blast
  moreover from updateRouting_monotone [OF len(2), of ?signs 1] during
  have "hasStop (updateRoutingWithStopSigns ?route ?signs ! 1)" by blast
  ultimately show ?thesis by blast
qed

text \<open>
  C5. \<open>updateRoutingWithStopSigns\<close> is idempotent: a second run on the route with the
  same detections leaves the route of the first run as it is.
\<close>

theorem updateRouting_idempotent:
  "updateRoutingWithStopSigns (updateRoutingWithStopSigns route signs) signs =
     updateRoutingWithStopSigns route signs"
proof -
  have "check_signs (check_signs node signs) signs = check_signs node signs" for node
    by (simp add: check_signs_eq distance_def)
  then show ?thesis by (simp add: update_map)
qed

text \<open>
  C6. On the route (100,150), (200,250), (300,350), no node marked, and one detection
  whose bounding box has its corner at (110,160), the first node is marked and the other
  two are not.
\<close>

theorem updateRouting_scenario:
  "updateRoutingWithStopSigns
     [\<lparr>node_x = Finite 100, node_y = Finite 150, hasStop = False\<rparr>,
      \<lparr>node_x = Finite 200, node_y = Finite 250, hasStop = False\<rparr>,
      \<lparr>node_x = Finite 300, node_y = Finite 350, hasStop = False\<rparr>]
     [\<lparr>boundingBox = \<lparr>rect_x = 110, rect_y = 160, rect_width = w, rect_height = h\<rparr>,
       contour = c\<rparr>] =
     [\<lparr>node_x = Finite 100, node_y = Finite 150, hasStop = True\<rparr>,
      \<lparr>node_x = Finite 200, node_y = Finite 250, hasStop = False\<rparr>,
      \<lparr>node_x = Finite 300, node_y = Finite 350, hasStop = False\<rparr>]"
  by (simp add: check_sign_def distance_literal int32_def rounded_norm_near_sq
      rounded_norm_far_sq)

text \<open>
  C7. With no detection \<open>updateRoutingWithStopSigns\<close> returns the route as it was,
  flags and coordinates alike, and on the empty route it returns the empty route; the
  function is total, so neither input is an error.
\<close>

theorem updateRouting_empty_inputs:
  "updateRoutingWithStopSigns route [] = route \<and> updateRoutingWithStopSigns [] signs = []"
  by (simp add: update_map)

text \<open>
  C9. \<open>updateRoutingWithStopSigns\<close> returns a route of the same length whose nodes
  have, position by position, the coordinates they had: only the flags can differ.
\<close>

theorem updateRouting_keeps_nodes:
  "length (updateRoutingWithStopSigns route signs) = length route \<and>
   map node_x (updateRoutingWithStopSigns route signs) = map node_x route \<and>
   map node_y (updateRoutingWithStopSigns route signs) = map node_y route"
  by (simp add: update_map check_signs_coords)

text \<open>
  C10. The result of \<open>updateRoutingWithStopSigns\<close> does not depend on the order of the
  detections: two lists that are permutations of each other give the same route.
\<close>

theorem updateRouting_order_independent:
  assumes "mset signs = mset signs'"
  shows "updateRoutingWithStopSigns route signs = updateRoutingWithStopSigns route signs'"
proof -
  from assms have "set signs = set signs'" by (rule mset_eq_setD)
  then show ?thesis by (simp add: update_map check_signs_eq)
qed

theorem updateRouting_order_independent_witness:
  "updateRoutingWithStopSigns sample_route
     [\<lparr>boundingBox = \<lparr>rect_x = 110, rect_y = 160, rect_width = 81, rect_height = 81\<rparr>,
       contour = octagon 20\<rparr>,
      \<lparr>boundingBox = \<lparr>rect_x = 310, rect_y = 360, rect_width = 9, rect_height = 9\<rparr>,
       contour = octagon 2\<rparr>] =
   updateRoutingWithStopSigns sample_route
     [\<lparr>boundingBox = \<lparr>rect_x = 310, rect_y = 360, rect_width = 9, rect_height = 9\<rparr>,
       contour = octagon 2\<rparr>,
      \<lparr>boundingBox = \<lparr>rect_x = 110, rect_y = 160, rect_width = 81, rect_height = 81\<rparr>,
       contour = octagon 20\<rparr>]"
proof -
  have "mset [\<lparr>boundingBox = \<lparr>rect_x = 110, rect_y = 160, rect_width = 81, rect_height = 81\<rparr>,
                contour = octagon 20\<rparr>,
              \<lparr>boundingBox = \<lparr>rect_x = 310, rect_y = 360, rect_width = 9, rect_height = 9\<rparr>,
                contour = octagon 2\<rparr>] =
        mset [\<lparr>boundingBox = \<lparr>rect_x = 310, rect_y = 360, rect_width = 9, rect_height = 9\<rparr>,
                contour = octagon 2\<rparr>,
              \<lparr>boundingBox = \<lparr>rect_x = 110, rect_y = 160, rect_width = 81, rect_height = 81\<rparr>,
                contour = octagon 20\<rparr>]"
    by (simp add: add_mset_commute)
  then show ?thesis by (rule updateRouting_order_independent)
qed

section \<open>The detector\<close>

lemma detect_loop_eq:
  "detect_loop cv contours detectedSigns =
     detectedSigns @
     map (\<lambda>approx. \<lparr>boundingBox = boundingRect cv approx, contour = approx\<rparr>)
       (filter (\<lambda>approx. length approx = 8 \<and> contourArea cv approx > 1000)
         (map (\<lambda>cnt. approxPolyDP cv cnt (0.02 * arcLength cv cnt True) True) contours))"
  by (induction contours arbitrary: detectedSigns) (simp_all add: Let_def)

lemma mask_or:
  "((if a then 255 else 0) OR (if b then 255 else 0) \<noteq> (0 :: 8 word)) = (a \<or> b)"
  by simp

lemma red_mask_sample: "mat_data (red_mask red_pixel_frame) = [255, 0]"
  by (simp add: red_mask_def red_pixel_frame_def inRange_def Mat_or_def in_bounds_def)

lemma polygon_area_octagon: "polygon_area (octagon s) = \<bar>real_of_int (28 * s * s)\<bar> / 2"
  by (simp add: polygon_area_def octagon_def algebra_simps)

lemma bounding_box_octagon:
  "bounding_box (octagon 20) = \<lparr>rect_x = 0, rect_y = 0, rect_width = 81, rect_height = 81\<rparr>"
  by (simp add: bounding_box_def octagon_def)

lemma length_square: "length (square s) = 4"
  by (simp add: square_def)

lemma length_octagon: "length (octagon s) = 8"
  by (simp add: octagon_def)

lemma sample_detections:
  "detectStopSigns sample_cv red_pixel_frame =
     [\<lparr>boundingBox = \<lparr>rect_x = 0, rect_y = 0, rect_width = 81, rect_height = 81\<rparr>,
       contour = octagon 20\<rparr>]"
  by (simp add: detectStopSigns_def sample_cv_def red_mask_sample polygon_area_octagon
      bounding_box_octagon length_octagon length_square)






text \<open>
  C3. Every detection that \<open>detectStopSigns\<close> returns has a polygon of exactly 8
  vertices whose area, as \<open>cv::contourArea\<close> computes it, is strictly above 1000. The
  loop over the contours returns the approximated polygons that pass both tests, in the
  order of the contours, each with its bounding rectangle; the others leave no trace.
\<close>

theorem detectStopSigns_octagons_only:
  "(\<forall>d \<in> set (detectStopSigns cv frame).
      length (contour d) = 8 \<and> contourArea cv (contour d) > 1000) \<and>
   detect_loop cv contours [] =
     map (\<lambda>approx. \<lparr>boundingBox = boundingRect cv approx, contour = approx\<rparr>)
       (filter (\<lambda>approx. length approx = 8 \<and> contourArea cv approx > 1000)
         (map (\<lambda>cnt. approxPolyDP cv cnt (0.02 * arcLength cv cnt True) True) contours))"
  by (auto simp: detectStopSigns_def detect_loop_eq Let_def)

theorem detectStopSigns_octagons_only_witness:
  "detectStopSigns sample_cv red_pixel_frame \<noteq> [] \<and>
   length (contour (hd (detectStopSigns sample_cv red_pixel_frame))) = 8 \<and>
   contourArea sample_cv (contour (hd (detectStopSigns sample_cv red_pixel_frame))) > 1000"
  using detectStopSigns_octagons_only [of sample_cv red_pixel_frame "[]"]
  by (simp add: sample_detections)

text \<open>
  C8. An element of the red mask is foreground (not 0) if and only if the HSV pixel at
  its place has its hue in [0,10] or in [170,180], its saturation in [70,255] and its
  value in [50,255]. The mask is the bitwise disjunction of the masks of the two hue
  bands and has one element for each pixel.
\<close>

theorem red_mask_foreground_iff:
  assumes "i < length (mat_data hsv)"
  shows "(mat_data (red_mask hsv) ! i \<noteq> 0 \<longleftrightarrow>
            (case mat_data hsv ! i of (h, s, v) \<Rightarrow>
               ((0 \<le> uint h \<and> uint h \<le> 10) \<or> (170 \<le> uint h \<and> uint h \<le> 180)) \<and>
               (70 \<le> uint s \<and> uint s \<le> 255) \<and> (50 \<le> uint v \<and> uint v \<le> 255))) \<and>
         red_mask hsv =
           Mat_or (inRange hsv (0, 70, 50) (10, 255, 255))
             (inRange hsv (170, 70, 50) (180, 255, 255)) \<and>
         length (mat_data (red_mask hsv)) = length (mat_data hsv)"
proof -
  obtain h s v where px: "mat_data hsv ! i = (h, s, v)"
    by (cases "mat_data hsv ! i") auto
  have "mat_data (red_mask hsv) ! i =
      (if in_bounds (0, 70, 50) (10, 255, 255) (h, s, v) then 255 else 0) OR
      (if in_bounds (170, 70, 50) (180, 255, 255) (h, s, v) then 255 else 0)"
    using assms px by (simp add: red_mask_def inRange_def Mat_or_def)
  then have "mat_data (red_mask hsv) ! i \<noteq> 0 \<longleftrightarrow>
      in_bounds (0, 70, 50) (10, 255, 255) (h, s, v) \<or>
      in_bounds (170, 70, 50) (180, 255, 255) (h, s, v)"
    by (simp only: mask_or)
  then have "mat_data (red_mask hsv) ! i \<noteq> 0 \<longleftrightarrow>
      (case mat_data hsv ! i of (h, s, v) \<Rightarrow>
         ((0 \<le> uint h \<and> uint h \<le> 10) \<or> (170 \<le> uint h \<and> uint h \<le> 180)) \<and>
         (70 \<le> uint s \<and> uint s \<le> 255) \<and> (50 \<le> uint v \<and> uint v \<le> 255))"
    by (auto simp: px in_bounds_def)
  then show ?thesis
    by (simp add: red_mask_def inRange_def Mat_or_def)
qed

theorem red_mask_foreground_iff_witness:
  "mat_data (red_mask red_pixel_frame) ! 0 \<noteq> 0 \<and> mat_data (red_mask red_pixel_frame) ! 1 = 0"
proof -
  have len: "0 < length (mat_data red_pixel_frame)" "1 < length (mat_data red_pixel_frame)"
    by (simp_all add: red_pixel_frame_def)
  have px: "mat_data red_pixel_frame ! 0 = (5, 100, 100)"
    "mat_data red_pixel_frame ! 1 = (90, 100, 100)"
    by (simp_all add: red_pixel_frame_def)
  have "mat_data (red_mask red_pixel_frame) ! 0 \<noteq> 0"
    using red_mask_foreground_iff [OF len(1), THEN conjunct1] unfolding px by simp
  moreover have "mat_data (red_mask red_pixel_frame) ! 1 = 0"
    using red_mask_foreground_iff [OF len(2), THEN conjunct1] unfolding px by simp
  ultimately show ?thesis by simp
qed

end
